theory Spec2Isabelle
  imports Main
begin

section \<open>Status page tracker: parsing of feed entries and change detection\<close>

text \<open>
  A shallow embedding of \<^verbatim>\<open>status_tracker.py\<close>. The program polls an Atom feed with
  conditional HTTP requests, converts every feed entry into an \<^verbatim>\<open>IncidentUpdate\<close> and
  calls a callback for every incident that is new or whose timestamp changed.

  What the program takes from outside is explicit in the model:
  \<^item> the routines of the Python library that the source calls are the fields of a record
    \<open>pylib\<close>, and \<^verbatim>\<open>feedparser.parse\<close> is a parameter of its own, so every theorem holds
    for any behaviour of them;
  \<^item> \<^verbatim>\<open>datetime.now\<close> reads a clock: a clock is the sequence of the readings still to
    come, and every call takes the first one;
  \<^item> the server is a function from the request headers to what the request yields;
  \<^item> the callback returns \<open>None\<close> when it returns normally and \<open>Some x\<close> when it raises
    \<open>x\<close>; the list of the incidents it was called with is part of every result;
  \<^item> an exception is a value: a function that can raise returns a sum, and the result of
    a method of the monitor says whether it returned or which exception left it.
\<close>

subsection \<open>Exceptions and library routines\<close>

text \<open>
  The exceptions of the program itself: \<open>AttributeError\<close> is the one that
  \<^verbatim>\<open>None.lower()\<close> raises; \<open>LibraryError c\<close> is an exception of the class named \<open>c\<close> that
  a routine of a library raises (\<^verbatim>\<open>ValueError\<close> or \<^verbatim>\<open>OverflowError\<close> for a time out of
  range, \<^verbatim>\<open>UnicodeDecodeError\<close> for a body that is not valid in its charset). An exception
  that leaves a method of the monitor is one of these or one that the callback raised.
\<close>

datatype py_error = AttributeError | LibraryError string

datatype 'x exn = Error py_error | CallbackError 'x

record ('ts, 'dt) pylib =
  timegm :: "'ts \<Rightarrow> py_error + int"        \<comment> \<open>\<^verbatim>\<open>calendar.timegm\<close>\<close>
  fromtimestamp :: "int \<Rightarrow> py_error + 'dt" \<comment> \<open>\<^verbatim>\<open>datetime.fromtimestamp(_, tz=timezone.utc)\<close>\<close>
  isoformat :: "'dt \<Rightarrow> string"             \<comment> \<open>\<^verbatim>\<open>datetime.isoformat\<close>\<close>
  html_data :: "string \<Rightarrow> string list"     \<comment> \<open>the text chunks \<^verbatim>\<open>HTMLParser.feed\<close> hands to \<^verbatim>\<open>handle_data\<close>\<close>
  py_strip :: "string \<Rightarrow> string"           \<comment> \<open>\<^verbatim>\<open>str.strip()\<close>, white space at both ends\<close>
  py_lower :: "string \<Rightarrow> string"           \<comment> \<open>\<^verbatim>\<open>str.lower()\<close>\<close>

type_synonym 'dt clock = "nat \<Rightarrow> 'dt"

definition now :: "'dt clock \<Rightarrow> 'dt \<times> 'dt clock" where
  "now clk = (clk 0, \<lambda>n. clk (Suc n))"

subsection \<open>Strings\<close>

fun contains :: "string \<Rightarrow> string \<Rightarrow> bool" where
  "contains sub [] = (sub = [])"
| "contains sub (c # cs) = (take (length sub) (c # cs) = sub \<or> contains sub cs)"

fun split :: "char \<Rightarrow> string \<Rightarrow> string list" where
  "split sep [] = [[]]"
| "split sep (c # cs) =
     (if c = sep then [] # split sep cs
      else (case split sep cs of [] \<Rightarrow> [[c]] | w # ws \<Rightarrow> (c # w) # ws))"

definition strip_chars :: "string \<Rightarrow> string \<Rightarrow> string" where
  "strip_chars chars s =
     rev (dropWhile (\<lambda>c. c \<in> set chars) (rev (dropWhile (\<lambda>c. c \<in> set chars) s)))"

definition newline :: char where
  "newline = CHR 0x0A"

definition strip_html :: "('ts, 'dt) pylib \<Rightarrow> string \<Rightarrow> string" where
  "strip_html L html = py_strip L (concat (html_data L html))"

subsection \<open>Data model\<close>

text \<open>
  What a key of a tag holds: the key is missing, it holds \<^verbatim>\<open>None\<close> (what \<^verbatim>\<open>feedparser\<close>
  stores for an attribute that a \<^verbatim>\<open>category\<close> element lacks), or it holds a string.
\<close>

datatype py_str = KeyMissing | PyNone | PyStr string

record tag =
  tag_term :: py_str
  tag_label :: py_str

text \<open>
  A feed entry, with the keys and attributes the source reads. For the keys of the entry
  \<open>None\<close> is a key that is missing; \<open>summary\<close> is \<open>None\<close> when the attribute is missing or
  holds \<^verbatim>\<open>None\<close>; \<open>tags\<close> and \<open>content\<close> are empty when the attribute is missing; an element
  of \<open>content\<close> is the string its key \<^verbatim>\<open>value\<close> holds, \<open>None\<close> when the key is missing.
\<close>

record 'ts entry =
  entry_id :: "string option"
  entry_title :: "string option"
  entry_link :: "string option"
  updated_parsed :: "'ts option"
  published_parsed :: "'ts option"
  tags :: "tag list"
  content :: "string option list"
  summary :: "string option"

record 'dt IncidentUpdate =
  incident_id :: string
  title :: string
  link :: string
  status :: string
  affected_components :: "string list"
  latest_message :: string
  updated_at :: 'dt

subsection \<open>Feed parser helpers\<close>

definition raw_text :: "'ts entry \<Rightarrow> string" where
  "raw_text e =
     (case content e of
        c # _ \<Rightarrow> (case c of Some v \<Rightarrow> v | None \<Rightarrow> [])
      | [] \<Rightarrow> (case summary e of Some s \<Rightarrow> s | None \<Rightarrow> []))"

definition parse_components :: "('ts, 'dt) pylib \<Rightarrow> 'ts entry \<Rightarrow> string list" where
  "parse_components L e =
     (let components =
            concat (map (\<lambda>t. case tag_term t of
                               PyStr term \<Rightarrow> (if term = [] then [] else [term])
                             | PyNone \<Rightarrow> []
                             | KeyMissing \<Rightarrow> [])
                        (tags e))
      in if components = [] then
           filter (\<lambda>line. CHR ''('' \<in> set line \<and> CHR '')'' \<in> set line)
             (map (\<lambda>line. py_strip L (strip_chars ''- '' line))
                  (split newline (strip_html L (raw_text e))))
         else components)"

definition status_labels :: "string list" where
  "status_labels =
     [''investigating'', ''identified'', ''monitoring'', ''resolved'',
      ''degraded performance'', ''partial outage'', ''major outage'']"

text \<open>
  The loop over the tags in \<^verbatim>\<open>_parse_status\<close>: \<^verbatim>\<open>tag.get("label", "").lower()\<close> raises
  \<open>AttributeError\<close> when the key holds \<^verbatim>\<open>None\<close>.
\<close>

fun status_of_tags :: "('ts, 'dt) pylib \<Rightarrow> tag list \<Rightarrow> py_error + string option" where
  "status_of_tags L [] = Inr None"
| "status_of_tags L (t # ts) =
     (case tag_label t of
        PyNone \<Rightarrow> Inl AttributeError
      | KeyMissing \<Rightarrow>
          (let label = py_lower L []
           in if label \<in> set status_labels then Inr (Some label) else status_of_tags L ts)
      | PyStr l \<Rightarrow>
          (let label = py_lower L l
           in if label \<in> set status_labels then Inr (Some l) else status_of_tags L ts))"

definition parse_status :: "('ts, 'dt) pylib \<Rightarrow> 'ts entry \<Rightarrow> py_error + string" where
  "parse_status L e =
     (case status_of_tags L (tags e) of
        Inl x \<Rightarrow> Inl x
      | Inr (Some s) \<Rightarrow> Inr s
      | Inr None \<Rightarrow>
          (let lower = py_lower L (strip_html L (raw_text e))
           in if contains ''resolved'' lower \<or> contains ''fully recovered'' lower
                then Inr ''Resolved''
              else if contains ''monitoring'' lower then Inr ''Monitoring''
              else if contains ''identified'' lower then Inr ''Identified''
              else if contains ''investigating'' lower then Inr ''Investigating''
              else if contains ''degraded'' lower then Inr ''Degraded Performance''
              else Inr ''Unknown''))"

definition parse_latest_message :: "('ts, 'dt) pylib \<Rightarrow> 'ts entry \<Rightarrow> string" where
  "parse_latest_message L e =
     (let text = strip_html L (raw_text e)
      in case filter (\<lambda>line. line \<noteq> [] \<and> CHR ''('' \<notin> set line)
                (map (py_strip L) (split newline text)) of
           line # _ \<Rightarrow> line
         | [] \<Rightarrow> (if text = [] then ''(no message)'' else take 200 text))"

definition stamp :: "'ts entry \<Rightarrow> 'ts option" where
  "stamp e = (case updated_parsed e of Some t \<Rightarrow> Some t | None \<Rightarrow> published_parsed e)"

definition parse_timestamp ::
  "('ts, 'dt) pylib \<Rightarrow> 'dt clock \<Rightarrow> 'ts entry \<Rightarrow> py_error + 'dt \<times> 'dt clock" where
  "parse_timestamp L clk e =
     (case stamp e of
        Some time_struct \<Rightarrow>
          (case timegm L time_struct of
             Inl x \<Rightarrow> Inl x
           | Inr seconds \<Rightarrow>
               (case fromtimestamp L seconds of
                  Inl x \<Rightarrow> Inl x
                | Inr t \<Rightarrow> Inr (t, clk)))
      | None \<Rightarrow> Inr (now clk))"

text \<open>
  The arguments of the constructor are evaluated in the order they are written, so
  \<^verbatim>\<open>_parse_status\<close> runs, and may raise, before \<^verbatim>\<open>_parse_timestamp\<close> reads the clock.
\<close>

definition parse_incident ::
  "('ts, 'dt) pylib \<Rightarrow> 'dt clock \<Rightarrow> 'ts entry \<Rightarrow>
   py_error + 'dt IncidentUpdate \<times> 'dt clock" where
  "parse_incident L clk e =
     (case parse_status L e of
        Inl x \<Rightarrow> Inl x
      | Inr st \<Rightarrow>
          (case parse_timestamp L clk e of
             Inl x \<Rightarrow> Inl x
           | Inr (t, clk') \<Rightarrow>
               Inr (\<lparr> incident_id =
                        (case entry_id e of
                           Some i \<Rightarrow> i
                         | None \<Rightarrow> (case entry_link e of Some l \<Rightarrow> l | None \<Rightarrow> [])),
                      title =
                        (case entry_title e of Some s \<Rightarrow> s | None \<Rightarrow> ''Unknown Incident''),
                      link = (case entry_link e of Some l \<Rightarrow> l | None \<Rightarrow> []),
                      status = st,
                      affected_components = parse_components L e,
                      latest_message = parse_latest_message L e,
                      updated_at = t \<rparr>,
                    clk')))"

subsection \<open>The monitor\<close>

record ('dt, 'x) StatusPageMonitor =
  name :: string
  feed_url :: string
  callback :: "string \<Rightarrow> 'dt IncidentUpdate \<Rightarrow> 'x option"
  poll_interval :: int
  etag :: "string option"
  last_modified :: "string option"
  seen_incidents :: "string \<rightharpoonup> string"
  running :: bool

definition init ::
  "string \<Rightarrow> string \<Rightarrow> (string \<Rightarrow> 'dt IncidentUpdate \<Rightarrow> 'x option) \<Rightarrow> int \<Rightarrow>
   ('dt, 'x) StatusPageMonitor" where
  "init nm url cb interval =
     \<lparr> name = nm, feed_url = url, callback = cb, poll_interval = interval,
       etag = None, last_modified = None, seen_incidents = Map.empty, running = False \<rparr>"

text \<open>
  How a call ends: it returns, or an exception leaves it. The source catches no exception
  of the callback and none of \<^verbatim>\<open>parse_incident\<close>, so one raised there leaves
  \<^verbatim>\<open>_process_entries\<close>, \<^verbatim>\<open>_check_feed\<close> and \<^verbatim>\<open>start\<close> in turn.
\<close>

datatype 'x outcome = Returned | Raised 'x

text \<open>
  The result of a method of the monitor: how the call ended, the monitor after it, the
  incidents the callback was called with (in the order of the calls, the call that raised
  included), and the clock after it.
\<close>

record ('dt, 'x) result =
  ended :: "'x exn outcome"
  monitor :: "('dt, 'x) StatusPageMonitor"
  calls :: "'dt IncidentUpdate list"
  clock_after :: "'dt clock"

text \<open>
  The loop of \<^verbatim>\<open>_process_entries\<close>. Its state is the local dictionary \<^verbatim>\<open>new_seen\<close>, the
  calls made so far and the clock; the monitor is only read. The first component of the
  result is the exception that ended the loop, if one did.
\<close>

fun process_loop ::
  "('ts, 'dt) pylib \<Rightarrow> ('dt, 'x) StatusPageMonitor \<Rightarrow> bool \<Rightarrow> 'ts entry list \<Rightarrow>
   (string \<rightharpoonup> string) \<Rightarrow> 'dt IncidentUpdate list \<Rightarrow> 'dt clock \<Rightarrow>
   'x exn option \<times> (string \<rightharpoonup> string) \<times> 'dt IncidentUpdate list \<times> 'dt clock" where
  "process_loop L m initial [] new_seen cs clk = (None, new_seen, cs, clk)"
| "process_loop L m initial (e # es) new_seen cs clk =
     (case parse_incident L clk e of
        Inl x \<Rightarrow> (Some (Error x), new_seen, cs, clk)
      | Inr (incident, clk') \<Rightarrow>
          (let updated_key = isoformat L (updated_at incident);
               new_seen' = new_seen(incident_id incident \<mapsto> updated_key)
           in if initial then
                (case callback m (name m) incident of
                   Some x \<Rightarrow> (Some (CallbackError x), new_seen', cs @ [incident], clk')
                 | None \<Rightarrow> process_loop L m initial es new_seen' (cs @ [incident]) clk')
              else
                (case seen_incidents m (incident_id incident) of
                   None \<Rightarrow>
                     (case callback m (name m) incident of
                        Some x \<Rightarrow> (Some (CallbackError x), new_seen', cs @ [incident], clk')
                      | None \<Rightarrow> process_loop L m initial es new_seen' (cs @ [incident]) clk')
                 | Some prev \<Rightarrow>
                     if prev \<noteq> updated_key then
                       (case callback m (name m) incident of
                          Some x \<Rightarrow> (Some (CallbackError x), new_seen', cs @ [incident], clk')
                        | None \<Rightarrow>
                            process_loop L m initial es new_seen' (cs @ [incident]) clk')
                     else process_loop L m initial es new_seen' cs clk')))"

definition process_entries ::
  "('ts, 'dt) pylib \<Rightarrow> 'dt clock \<Rightarrow> ('dt, 'x) StatusPageMonitor \<Rightarrow> 'ts entry list \<Rightarrow> bool \<Rightarrow>
   ('dt, 'x) result" where
  "process_entries L clk m entries initial =
     (case process_loop L m initial entries Map.empty [] clk of
        (None, new_seen, cs, clk') \<Rightarrow>
          \<lparr> ended = Returned, monitor = m\<lparr>seen_incidents := new_seen\<rparr>,
            calls = cs, clock_after = clk' \<rparr>
      | (Some x, new_seen, cs, clk') \<Rightarrow>
          \<lparr> ended = Raised x, monitor = m, calls = cs, clock_after = clk' \<rparr>)"

subsection \<open>One cycle\<close>

text \<open>
  What \<^verbatim>\<open>session.get\<close> and \<^verbatim>\<open>resp.text\<close> yield. Both are inside the \<^verbatim>\<open>try\<close> block of
  \<^verbatim>\<open>_check_feed\<close>, whose handler catches \<^verbatim>\<open>aiohttp.ClientError\<close> and
  \<^verbatim>\<open>asyncio.TimeoutError\<close>: \<open>GetFailed\<close> is one of them raised before a response is
  there, \<open>BodyFailed\<close> one raised while the body of a response is read. \<open>GetRaised\<close>
  and \<open>BodyRaised\<close> are an exception of another class raised at these two places, such as
  the \<^verbatim>\<open>UnicodeDecodeError\<close> of \<^verbatim>\<open>resp.text\<close> for a body that is not valid in its charset:
  the handler does not catch it.
\<close>

datatype body_read = BodyText string | BodyFailed | BodyRaised py_error

datatype fetch =
  GetFailed | GetRaised py_error | Response int "string \<rightharpoonup> string" body_read

type_synonym server = "(string \<rightharpoonup> string) \<Rightarrow> fetch"

definition request_headers :: "('dt, 'x) StatusPageMonitor \<Rightarrow> (string \<rightharpoonup> string)" where
  "request_headers m =
     (let headers = Map.empty;
          headers = (case etag m of
                       Some t \<Rightarrow> if t = [] then headers else headers(''If-None-Match'' \<mapsto> t)
                     | None \<Rightarrow> headers);
          headers = (case last_modified m of
                       Some t \<Rightarrow> if t = [] then headers else headers(''If-Modified-Since'' \<mapsto> t)
                     | None \<Rightarrow> headers)
      in headers)"

text \<open>
  \<^verbatim>\<open>feedparser.parse\<close> is the parameter \<open>parse\<close>: it gives the flag \<^verbatim>\<open>bozo\<close> and the
  entries of a body.
\<close>

type_synonym 'ts feedparser = "string \<Rightarrow> bool \<times> 'ts entry list"

definition check_feed ::
  "('ts, 'dt) pylib \<Rightarrow> 'ts feedparser \<Rightarrow> 'dt clock \<Rightarrow> ('dt, 'x) StatusPageMonitor \<Rightarrow>
   server \<Rightarrow> bool \<Rightarrow> ('dt, 'x) result" where
  "check_feed L parse clk m srv initial =
     (case srv (request_headers m) of
        GetFailed \<Rightarrow> \<lparr> ended = Returned, monitor = m, calls = [], clock_after = clk \<rparr>
      | GetRaised x \<Rightarrow>
          \<lparr> ended = Raised (Error x), monitor = m, calls = [], clock_after = clk \<rparr>
      | Response code headers body_read \<Rightarrow>
          if code = 304 then
            \<lparr> ended = Returned, monitor = m, calls = [], clock_after = clk \<rparr>
          else if code \<noteq> 200 then
            \<lparr> ended = Returned, monitor = m, calls = [], clock_after = clk \<rparr>
          else
            (let m' = m\<lparr> etag := headers ''ETag'',
                         last_modified := headers ''Last-Modified'' \<rparr>
             in case body_read of
                  BodyFailed \<Rightarrow>
                    \<lparr> ended = Returned, monitor = m', calls = [], clock_after = clk \<rparr>
                | BodyRaised x \<Rightarrow>
                    \<lparr> ended = Raised (Error x), monitor = m', calls = [], clock_after = clk \<rparr>
                | BodyText body \<Rightarrow>
                    (case parse body of
                       (bozo, entries) \<Rightarrow>
                         if bozo \<and> entries = [] then
                           \<lparr> ended = Returned, monitor = m', calls = [], clock_after = clk \<rparr>
                         else process_entries L clk m' entries initial)))"

subsection \<open>The polling loop\<close>

text \<open>
  \<^verbatim>\<open>start\<close> runs one cycle with \<^verbatim>\<open>initial=True\<close> and then, as long as nobody called
  \<^verbatim>\<open>stop\<close>, one cycle with \<^verbatim>\<open>initial=False\<close> after every sleep. The servers of the
  cycles that run before \<^verbatim>\<open>stop\<close> is called are the list the loop takes; the calls of all
  cycles are collected in order. An exception that leaves a cycle leaves the loop.
\<close>

fun poll_loop ::
  "('ts, 'dt) pylib \<Rightarrow> 'ts feedparser \<Rightarrow> 'dt clock \<Rightarrow> ('dt, 'x) StatusPageMonitor \<Rightarrow>
   server list \<Rightarrow> 'dt IncidentUpdate list \<Rightarrow> ('dt, 'x) result" where
  "poll_loop L parse clk m [] cs =
     \<lparr> ended = Returned, monitor = m\<lparr>running := False\<rparr>, calls = cs, clock_after = clk \<rparr>"
| "poll_loop L parse clk m (srv # srvs) cs =
     (let r = check_feed L parse clk m srv False
      in case ended r of
           Raised x \<Rightarrow> r\<lparr>calls := cs @ calls r\<rparr>
         | Returned \<Rightarrow> poll_loop L parse (clock_after r) (monitor r) srvs (cs @ calls r))"

definition start ::
  "('ts, 'dt) pylib \<Rightarrow> 'ts feedparser \<Rightarrow> 'dt clock \<Rightarrow> ('dt, 'x) StatusPageMonitor \<Rightarrow>
   server \<Rightarrow> server list \<Rightarrow> ('dt, 'x) result" where
  "start L parse clk m srv srvs =
     (let r = check_feed L parse clk (m\<lparr>running := True\<rparr>) srv True
      in case ended r of
           Raised x \<Rightarrow> r
         | Returned \<Rightarrow> poll_loop L parse (clock_after r) (monitor r) srvs (calls r))"

subsection \<open>The incidents of a cycle\<close>

text \<open>
  What the calls of \<^verbatim>\<open>parse_incident\<close> in the loop of \<^verbatim>\<open>_process_entries\<close> compute from
  the entries, in the order of the feed: every entry is parsed with the clock the entries
  before it left. The result is the incidents of the entries before the first one at
  which \<^verbatim>\<open>parse_incident\<close> raises, the exception raised there if there is one, and the
  clock.
\<close>

fun parse_all ::
  "('ts, 'dt) pylib \<Rightarrow> 'dt clock \<Rightarrow> 'ts entry list \<Rightarrow>
   'dt IncidentUpdate list \<times> py_error option \<times> 'dt clock" where
  "parse_all L clk [] = ([], None, clk)"
| "parse_all L clk (e # es) =
     (case parse_incident L clk e of
        Inl x \<Rightarrow> ([], Some x, clk)
      | Inr (incident, clk') \<Rightarrow>
          (case parse_all L clk' es of
             (rest, err, clk'') \<Rightarrow> (incident # rest, err, clk'')))"

definition incidents ::
  "('ts, 'dt) pylib \<Rightarrow> 'dt clock \<Rightarrow> 'ts entry list \<Rightarrow> 'dt IncidentUpdate list" where
  "incidents L clk es = fst (parse_all L clk es)"

definition parse_error ::
  "('ts, 'dt) pylib \<Rightarrow> 'dt clock \<Rightarrow> 'ts entry list \<Rightarrow> py_error option" where
  "parse_error L clk es = fst (snd (parse_all L clk es))"

definition clock_end ::
  "('ts, 'dt) pylib \<Rightarrow> 'dt clock \<Rightarrow> 'ts entry list \<Rightarrow> 'dt clock" where
  "clock_end L clk es = snd (snd (parse_all L clk es))"

text \<open>
  The dictionary that the assignments \<^verbatim>\<open>new_seen[incident.id] = updated_key\<close> build, one
  after the other, from a sequence of incidents.
\<close>

fun assign_all ::
  "('ts, 'dt) pylib \<Rightarrow> 'dt IncidentUpdate list \<Rightarrow> (string \<rightharpoonup> string) \<Rightarrow> (string \<rightharpoonup> string)" where
  "assign_all L [] new_seen = new_seen"
| "assign_all L (i # incs) new_seen =
     assign_all L incs (new_seen(incident_id i \<mapsto> isoformat L (updated_at i)))"

definition snapshot ::
  "('ts, 'dt) pylib \<Rightarrow> 'dt IncidentUpdate list \<Rightarrow> (string \<rightharpoonup> string)" where
  "snapshot L incs = assign_all L incs Map.empty"


text \<open>
  The number of clock readings taken before the entry at position \<open>n\<close> is parsed: one for
  every entry before it that carries neither an updated nor a published time.
\<close>

definition readings_before :: "'ts entry list \<Rightarrow> nat \<Rightarrow> nat" where
  "readings_before es n = length (filter (\<lambda>e. stamp e = None) (take n es))"

definition normalize_feed ::
  "('ts, 'dt) pylib \<Rightarrow> 'ts feedparser \<Rightarrow> 'dt clock \<Rightarrow> string \<Rightarrow> 'dt IncidentUpdate list" where
  "normalize_feed L parse clk body = incidents L clk (snd (parse body))"

subsection \<open>Examples\<close>

text \<open>
  Concrete values for the examples below. A time tuple is the list of its nine fields, a
  point in time the number of microseconds since the epoch. The library routines are
  tabulated at the values the examples use: \<^verbatim>\<open>timegm((2025, 11, 3, 14, 0, 0, 0, 307, 0))\<close>
  is 1762178400. The entries are those of the test suite's \<^verbatim>\<open>_make_entry\<close>, without a
  summary.
\<close>

definition ex_t14 :: "int list" where
  "ex_t14 = [2025, 11, 3, 14, 0, 0, 0, 307, 0]"

definition ex_t15 :: "int list" where
  "ex_t15 = [2025, 11, 3, 15, 0, 0, 0, 307, 0]"

definition ex_timegm :: "int list \<Rightarrow> int" where
  "ex_timegm t = (if t = ex_t14 then 1762178400 else if t = ex_t15 then 1762182000 else 0)"

definition ex_isoformat :: "int \<Rightarrow> string" where
  "ex_isoformat d =
     (if d = 1762178400000000 then ''2025-11-03T14:00:00+00:00''
      else if d = 1762182000000000 then ''2025-11-03T15:00:00+00:00''
      else if d = 1762182000500000 then ''2025-11-03T15:00:00.500000+00:00''
      else if d = 1762182001500000 then ''2025-11-03T15:00:01.500000+00:00''
      else ''1970-01-01T00:00:00+00:00'')"

definition ex_html_data :: "string \<Rightarrow> string list" where
  "ex_html_data s = (if s = [] then [] else [s])"

definition ex_same :: "string \<Rightarrow> string" where
  "ex_same s = s"

definition ex_lib :: "(int list, int) pylib" where
  "ex_lib =
     \<lparr> timegm = (\<lambda>t. Inr (ex_timegm t)), fromtimestamp = (\<lambda>s. Inr (s * 1000000)),
       isoformat = ex_isoformat,
       html_data = ex_html_data, py_strip = ex_same, py_lower = ex_same \<rparr>"

definition ex_clock :: "int clock" where
  "ex_clock n = 1762182000500000 + 1000000 * int n"

definition ex_clock_later :: "int clock" where
  "ex_clock_later n = 1762182001500000 + 1000000 * int n"

definition ex_entry :: "string \<Rightarrow> int list option \<Rightarrow> int list entry" where
  "ex_entry i t =
     \<lparr> entry_id = Some i, entry_title = Some ''Incident'', entry_link = Some i,
       updated_parsed = t, published_parsed = t, tags = [], content = [], summary = None \<rparr>"

definition ex_incident :: "string \<Rightarrow> int \<Rightarrow> int IncidentUpdate" where
  "ex_incident i d =
     \<lparr> incident_id = i, title = ''Incident'', link = i, status = ''Unknown'',
       affected_components = [], latest_message = ''(no message)'', updated_at = d \<rparr>"

definition ex_quiet :: "string \<Rightarrow> int IncidentUpdate \<Rightarrow> string option" where
  "ex_quiet n i = None"

definition ex_raising :: "string \<Rightarrow> int IncidentUpdate \<Rightarrow> string option" where
  "ex_raising n i = (if incident_id i = ''inc1'' then Some ''boom'' else None)"

definition ex_monitor :: "(int, string) StatusPageMonitor" where
  "ex_monitor = init ''Test'' ''http://example.com/feed.atom'' ex_quiet 60"

definition ex_known :: "(int, string) StatusPageMonitor" where
  "ex_known =
     ex_monitor\<lparr> seen_incidents :=
       [''inc1'' \<mapsto> ''2025-11-03T15:00:00+00:00'', ''inc3'' \<mapsto> ''2025-11-03T14:00:00+00:00''] \<rparr>"

definition ex_entries :: "int list entry list" where
  "ex_entries =
     [ex_entry ''inc1'' (Some ex_t14), ex_entry ''inc2'' (Some ex_t15),
      ex_entry ''inc3'' (Some ex_t14)]"

definition ex_twice :: "int list entry list" where
  "ex_twice = [ex_entry ''inc1'' (Some ex_t14), ex_entry ''inc1'' (Some ex_t15)]"

definition ex_fragile :: "(int, string) StatusPageMonitor" where
  "ex_fragile = init ''Test'' ''http://example.com/feed.atom'' ex_raising 60"

definition ex_fragile_known :: "(int, string) StatusPageMonitor" where
  "ex_fragile_known =
     ex_fragile\<lparr> seen_incidents := [''inc3'' \<mapsto> ''2025-11-03T14:00:00+00:00''] \<rparr>"

definition ex_labelled :: "int list entry" where
  "ex_labelled =
     (ex_entry ''inc1'' (Some ex_t14))
       \<lparr> tags := [\<lparr> tag_term = PyStr ''API'', tag_label = PyNone \<rparr>] \<rparr>"

definition ex_cached :: "(int, string) StatusPageMonitor" where
  "ex_cached = ex_known\<lparr> etag := Some ''v1'', last_modified := Some ''Mon, 03 Nov 2025 14:00:00 GMT'' \<rparr>"

definition ex_feed :: "int list feedparser" where
  "ex_feed body =
     (if body = ''two'' then (False, [ex_entry ''inc1'' (Some ex_t14), ex_entry ''inc2'' (Some ex_t15)])
      else if body = ''one'' then (False, [ex_entry ''inc1'' (Some ex_t14)])
      else if body = ''untimed'' then (False, [ex_entry ''inc1'' None])
      else if body = ''empty'' then (False, [])
      else (True, []))"

definition ex_server :: "int \<Rightarrow> string option \<Rightarrow> body_read \<Rightarrow> server" where
  "ex_server code tag b h =
     Response code (case tag of None \<Rightarrow> Map.empty | Some t \<Rightarrow> [''ETag'' \<mapsto> t]) b"

definition ex_undecodable :: server where
  "ex_undecodable = ex_server 200 (Some ''v2'') (BodyRaised (LibraryError ''UnicodeDecodeError''))"

definition ex_unreachable :: server where
  "ex_unreachable h = GetFailed"

lemmas ex_defs =
  ex_t14_def ex_t15_def ex_timegm_def ex_isoformat_def ex_html_data_def ex_same_def ex_lib_def
  ex_clock_def ex_clock_later_def ex_entry_def ex_incident_def ex_quiet_def ex_raising_def
  ex_undecodable_def ex_monitor_def ex_known_def ex_entries_def ex_twice_def ex_fragile_def ex_fragile_known_def ex_labelled_def ex_cached_def ex_feed_def ex_server_def ex_unreachable_def init_def

lemmas parse_defs =
  parse_incident_def parse_timestamp_def stamp_def parse_status_def parse_components_def
  parse_latest_message_def raw_text_def strip_html_def strip_chars_def now_def newline_def

section \<open>Properties\<close>

subsection \<open>The loop over the entries\<close>

lemma incidents_Nil: "incidents L clk [] = []"
  by (simp add: incidents_def)

lemma parse_all_raises:
  assumes "parse_incident L clk e = Inl x"
  shows "incidents L clk (e # es) = []"
    and "parse_error L clk (e # es) = Some x"
    and "clock_end L clk (e # es) = clk"
  using assms by (simp_all add: incidents_def parse_error_def clock_end_def)

lemma parse_all_parses:
  assumes "parse_incident L clk e = Inr (i, clk')"
  shows "incidents L clk (e # es) = i # incidents L clk' es"
    and "parse_error L clk (e # es) = parse_error L clk' es"
    and "clock_end L clk (e # es) = clock_end L clk' es"
  using assms
  by (simp_all add: incidents_def parse_error_def clock_end_def split: prod.splits)

lemma assign_all_map_of:
  "assign_all L incs ns =
     ns ++ map_of (rev (map (\<lambda>i. (incident_id i, isoformat L (updated_at i))) incs))"
proof (induction incs arbitrary: ns)
  case Nil
  show ?case by simp
next
  case (Cons i incs)
  have "ns(incident_id i \<mapsto> isoformat L (updated_at i)) = ns ++ [incident_id i \<mapsto> isoformat L (updated_at i)]"
    by simp
  then show ?case
    by (simp add: Cons.IH del: map_add_upd)
qed

lemma snapshot_map_of:
  "snapshot L incs = map_of (rev (map (\<lambda>i. (incident_id i, isoformat L (updated_at i))) incs))"
  by (simp add: snapshot_def assign_all_map_of)

lemma snapshot_Nil: "snapshot L [] = Map.empty"
  by (simp add: snapshot_def)

lemma snapshot_Cons:
  "ns ++ snapshot L (i # incs) =
     (ns(incident_id i \<mapsto> isoformat L (updated_at i))) ++ snapshot L incs"
proof -
  have "ns(incident_id i \<mapsto> isoformat L (updated_at i)) = ns ++ [incident_id i \<mapsto> isoformat L (updated_at i)]"
    by simp
  then show ?thesis
    by (simp add: snapshot_map_of del: map_add_upd)
qed

lemma snapshot_absent:
  "k \<notin> incident_id ` set incs \<Longrightarrow> snapshot L incs k = None"
  by (simp add: snapshot_map_of map_of_eq_None_iff image_image)

lemma snapshot_last:
  assumes "k \<notin> incident_id ` set post" and "incident_id i = k"
  shows "snapshot L (pre @ i # post) k = Some (isoformat L (updated_at i))"
proof -
  have "map_of (rev (map (\<lambda>i. (incident_id i, isoformat L (updated_at i))) post)) k = None"
    using assms(1) by (simp add: map_of_eq_None_iff image_image)
  then show ?thesis
    using assms(2) by (simp add: snapshot_map_of map_add_def)
qed

text \<open>
  One step of the loop: the three places where the source calls the callback are the
  case that the cycle is the initial one or that the dictionary of the cycle before does
  not hold the key just computed under the incident's identity.
\<close>

lemma process_loop_parse_raises:
  assumes "parse_incident L clk e = Inl x"
  shows "process_loop L m initial (e # es) ns cs clk = (Some (Error x), ns, cs, clk)"
  using assms by simp

lemma process_loop_skip:
  assumes "parse_incident L clk e = Inr (i, clk')"
    and "\<not> (initial \<or> seen_incidents m (incident_id i) \<noteq> Some (isoformat L (updated_at i)))"
  shows "process_loop L m initial (e # es) ns cs clk =
     process_loop L m initial es (ns(incident_id i \<mapsto> isoformat L (updated_at i))) cs clk'"
  using assms by (auto simp: Let_def split: option.splits)

lemma process_loop_call:
  assumes "parse_incident L clk e = Inr (i, clk')"
    and "initial \<or> seen_incidents m (incident_id i) \<noteq> Some (isoformat L (updated_at i))"
    and "callback m (name m) i = None"
  shows "process_loop L m initial (e # es) ns cs clk =
     process_loop L m initial es (ns(incident_id i \<mapsto> isoformat L (updated_at i)))
       (cs @ [i]) clk'"
  using assms by (auto simp: Let_def split: option.splits)

lemma process_loop_call_raises:
  assumes "parse_incident L clk e = Inr (i, clk')"
    and "initial \<or> seen_incidents m (incident_id i) \<noteq> Some (isoformat L (updated_at i))"
    and "callback m (name m) i = Some x"
  shows "process_loop L m initial (e # es) ns cs clk =
     (Some (CallbackError x), ns(incident_id i \<mapsto> isoformat L (updated_at i)), cs @ [i], clk')"
  using assms by (auto simp: Let_def split: option.splits)

lemma process_loop_returns:
  assumes "\<forall>i \<in> set (incidents L clk es).
             (initial \<or> seen_incidents m (incident_id i) \<noteq> Some (isoformat L (updated_at i)))
             \<longrightarrow> callback m (name m) i = None"
  shows "process_loop L m initial es ns cs clk =
           (map_option Error (parse_error L clk es), ns ++ snapshot L (incidents L clk es),
            cs @ filter (\<lambda>i. initial \<or>
                     seen_incidents m (incident_id i) \<noteq> Some (isoformat L (updated_at i)))
                   (incidents L clk es),
            clock_end L clk es)"
  using assms
proof (induction es arbitrary: ns cs clk)
  case Nil
  show ?case by (simp add: incidents_def parse_error_def clock_end_def snapshot_Nil)
next
  case (Cons e es)
  let ?P = "\<lambda>i. initial \<or> seen_incidents m (incident_id i) \<noteq> Some (isoformat L (updated_at i))"
  show ?case
  proof (cases "parse_incident L clk e")
    case (Inl x)
    show ?thesis
      unfolding process_loop_parse_raises [OF Inl] parse_all_raises [OF Inl]
      by (simp add: snapshot_Nil)
  next
    case (Inr p)
    obtain i clk' where p: "parse_incident L clk e = Inr (i, clk')"
      using Inr by (cases p) simp
    note inc = parse_all_parses [OF p]
    have rest: "\<forall>j \<in> set (incidents L clk' es). ?P j \<longrightarrow> callback m (name m) j = None"
      using Cons.prems inc(1) [of es] by simp
    have hd: "?P i \<longrightarrow> callback m (name m) i = None"
      using Cons.prems inc(1) [of es] by simp
    note IH = Cons.IH [OF rest]
    show ?thesis
    proof (cases "?P i")
      case True
      with hd have ok: "callback m (name m) i = None" by blast
      have "filter ?P (i # incidents L clk' es) = i # filter ?P (incidents L clk' es)"
        using True by simp
      then show ?thesis
        unfolding process_loop_call [OF p True ok] IH inc snapshot_Cons by simp
    next
      case False
      have "filter ?P (i # incidents L clk' es) = filter ?P (incidents L clk' es)"
        using False by simp
      then show ?thesis
        unfolding process_loop_skip [OF p False] IH inc snapshot_Cons by simp
    qed
  qed
qed

lemma process_loop_raises:
  assumes "filter (\<lambda>i. initial \<or>
                     seen_incidents m (incident_id i) \<noteq> Some (isoformat L (updated_at i)))
             (incidents L clk es) = pre @ i # post"
    and "\<forall>p \<in> set pre. callback m (name m) p = None"
    and "callback m (name m) i = Some x"
  shows "\<exists>ns' clk'. process_loop L m initial es ns cs clk =
           (Some (CallbackError x), ns', cs @ pre @ [i], clk')"
  using assms
proof (induction es arbitrary: ns cs clk pre)
  case Nil
  then show ?case by (simp add: incidents_Nil)
next
  case (Cons e es)
  let ?P = "\<lambda>i. initial \<or> seen_incidents m (incident_id i) \<noteq> Some (isoformat L (updated_at i))"
  show ?case
  proof (cases "parse_incident L clk e")
    case (Inl x)
    with Cons.prems(1) show ?thesis
      by (simp add: parse_all_raises(1) [OF Inl])
  next
    case (Inr q)
    obtain j clk' where p: "parse_incident L clk e = Inr (j, clk')"
      using Inr by (cases q) simp
    have inc: "incidents L clk (e # es) = j # incidents L clk' es"
      by (rule parse_all_parses(1) [OF p])
    show ?thesis
    proof (cases "?P j")
      case False
      then have "filter ?P (incidents L clk' es) = pre @ i # post"
        using Cons.prems(1) inc by simp
      from Cons.IH [OF this Cons.prems(2) Cons.prems(3)] show ?thesis
        unfolding process_loop_skip [OF p False] by blast
    next
      case True
      then have sel: "j # filter ?P (incidents L clk' es) = pre @ i # post"
        using Cons.prems(1) inc by simp
      show ?thesis
      proof (cases pre)
        case Nil
        with sel have "j = i" by simp
        with Cons.prems(3) have "callback m (name m) j = Some x" by simp
        from process_loop_call_raises [OF p True this] show ?thesis
          using Nil \<open>j = i\<close> by simp
      next
        case (Cons q pre')
        with sel have j: "j = q" and rest: "filter ?P (incidents L clk' es) = pre' @ i # post"
          by simp_all
        have ok: "callback m (name m) j = None"
          using Cons.prems(2) Cons j by simp
        have "\<forall>p \<in> set pre'. callback m (name m) p = None"
          using Cons.prems(2) Cons by simp
        from Cons.IH [OF rest this Cons.prems(3),
            of "ns(incident_id j \<mapsto> isoformat L (updated_at j))" "cs @ [j]"]
        show ?thesis
          unfolding process_loop_call [OF p True ok] using Cons j by (simp add: fun_upd_def)
      qed
    qed
  qed
qed

lemma process_entries_returns:
  assumes "\<forall>i \<in> set (incidents L clk es).
             (initial \<or> seen_incidents m (incident_id i) \<noteq> Some (isoformat L (updated_at i)))
             \<longrightarrow> callback m (name m) i = None"
    and "parse_error L clk es = None"
  shows "process_entries L clk m es initial =
           \<lparr> ended = Returned,
             monitor = m\<lparr>seen_incidents := snapshot L (incidents L clk es)\<rparr>,
             calls = filter (\<lambda>i. initial \<or>
                       seen_incidents m (incident_id i) \<noteq> Some (isoformat L (updated_at i)))
                     (incidents L clk es),
             clock_after = clock_end L clk es \<rparr>"
  by (simp add: process_entries_def process_loop_returns [OF assms(1)] assms(2))

lemma process_entries_parse_raises:
  assumes "\<forall>i \<in> set (incidents L clk es).
             (initial \<or> seen_incidents m (incident_id i) \<noteq> Some (isoformat L (updated_at i)))
             \<longrightarrow> callback m (name m) i = None"
    and "parse_error L clk es = Some x"
  shows "process_entries L clk m es initial =
           \<lparr> ended = Raised (Error x), monitor = m,
             calls = filter (\<lambda>i. initial \<or>
                       seen_incidents m (incident_id i) \<noteq> Some (isoformat L (updated_at i)))
                     (incidents L clk es),
             clock_after = clock_end L clk es \<rparr>"
  by (simp add: process_entries_def process_loop_returns [OF assms(1)] assms(2))

lemma process_entries_raises:
  assumes "filter (\<lambda>i. initial \<or>
                     seen_incidents m (incident_id i) \<noteq> Some (isoformat L (updated_at i)))
             (incidents L clk es) = pre @ i # post"
    and "\<forall>p \<in> set pre. callback m (name m) p = None"
    and "callback m (name m) i = Some x"
  shows "\<exists>clk'. process_entries L clk m es initial =
           \<lparr> ended = Raised (CallbackError x), monitor = m, calls = pre @ [i],
             clock_after = clk' \<rparr>"
proof -
  from process_loop_raises [OF assms, of Map.empty "[]"]
  obtain ns' clk' where
    "process_loop L m initial es Map.empty [] clk = (Some (CallbackError x), ns', pre @ [i], clk')"
    by auto
  then show ?thesis by (simp add: process_entries_def)
qed

lemma process_entries_Returned:
  assumes "ended (process_entries L clk m es initial) = Returned"
  shows "parse_error L clk es = None"
    and "process_entries L clk m es initial =
           \<lparr> ended = Returned,
             monitor = m\<lparr>seen_incidents := snapshot L (incidents L clk es)\<rparr>,
             calls = filter (\<lambda>i. initial \<or>
                       seen_incidents m (incident_id i) \<noteq> Some (isoformat L (updated_at i)))
                     (incidents L clk es),
             clock_after = clock_end L clk es \<rparr>"
proof -
  let ?P = "\<lambda>i. initial \<or> seen_incidents m (incident_id i) \<noteq> Some (isoformat L (updated_at i))"
  let ?sel = "filter ?P (incidents L clk es)"
  have quiet: "\<forall>i \<in> set (incidents L clk es). ?P i \<longrightarrow> callback m (name m) i = None"
  proof (rule ccontr)
    assume "\<not> ?thesis"
    then have "\<exists>i \<in> set ?sel. callback m (name m) i \<noteq> None" by auto
    then obtain pre i post where sel: "?sel = pre @ i # post"
      and i: "callback m (name m) i \<noteq> None"
      and pre: "\<forall>p \<in> set pre. \<not> callback m (name m) p \<noteq> None"
      by (rule split_list_first_propE)
    from i obtain x where x: "callback m (name m) i = Some x" by auto
    from pre have "\<forall>p \<in> set pre. callback m (name m) p = None" by simp
    from process_entries_raises [OF sel this x] have
      "ended (process_entries L clk m es initial) = Raised (CallbackError x)"
      by auto
    with assms show False by simp
  qed
  show err: "parse_error L clk es = None"
  proof (cases "parse_error L clk es")
    case None
    then show ?thesis .
  next
    case (Some x)
    from process_entries_parse_raises [OF quiet Some] assms show ?thesis by simp
  qed
  show "process_entries L clk m es initial =
           \<lparr> ended = Returned,
             monitor = m\<lparr>seen_incidents := snapshot L (incidents L clk es)\<rparr>,
             calls = filter ?P (incidents L clk es),
             clock_after = clock_end L clk es \<rparr>"
    by (rule process_entries_returns [OF quiet err])
qed

lemma process_entries_keeps:
  "etag (monitor (process_entries L clk m es initial)) = etag m"
  "last_modified (monitor (process_entries L clk m es initial)) = last_modified m"
  "callback (monitor (process_entries L clk m es initial)) = callback m"
  "name (monitor (process_entries L clk m es initial)) = name m"
  "running (monitor (process_entries L clk m es initial)) = running m"
  by (simp_all add: process_entries_def split: prod.splits option.splits)

lemma ex_parse_all:
  "parse_all ex_lib c ex_entries =
     ([ex_incident ''inc1'' 1762178400000000, ex_incident ''inc2'' 1762182000000000,
       ex_incident ''inc3'' 1762178400000000], None, c)"
  "parse_all ex_lib c ex_twice =
     ([ex_incident ''inc1'' 1762178400000000, ex_incident ''inc1'' 1762182000000000], None, c)"
  "parse_all ex_lib c (snd (ex_feed ''two'')) =
     ([ex_incident ''inc1'' 1762178400000000, ex_incident ''inc2'' 1762182000000000], None, c)"
  by (simp_all add: ex_defs parse_defs)

lemma ex_incidents:
  "incidents ex_lib c ex_entries =
     [ex_incident ''inc1'' 1762178400000000, ex_incident ''inc2'' 1762182000000000,
      ex_incident ''inc3'' 1762178400000000]"
  "incidents ex_lib c ex_twice =
     [ex_incident ''inc1'' 1762178400000000, ex_incident ''inc1'' 1762182000000000]"
  "incidents ex_lib c (snd (ex_feed ''two'')) =
     [ex_incident ''inc1'' 1762178400000000, ex_incident ''inc2'' 1762182000000000]"
  "parse_error ex_lib c ex_entries = None"
  "parse_error ex_lib c ex_twice = None"
  "parse_error ex_lib c (snd (ex_feed ''two'')) = None"
  by (simp_all add: incidents_def parse_error_def ex_parse_all)

text \<open>
  An entry with a \<^verbatim>\<open>category\<close> that has no label: \<^verbatim>\<open>parse_incident\<close> raises, no call is
  made for the entry, and the snapshot is the one of the cycle before.
\<close>

lemma ex_label_none_raises:
  "parse_incident ex_lib ex_clock ex_labelled = Inl AttributeError"
  "ended (process_entries ex_lib ex_clock ex_known [ex_labelled] False) =
     Raised (Error AttributeError)"
  "calls (process_entries ex_lib ex_clock ex_known [ex_labelled] False) = []"
  "monitor (process_entries ex_lib ex_clock ex_known [ex_labelled] False) = ex_known"
  by (simp_all add: process_entries_def ex_defs parse_defs)

lemma incidents_length:
  "parse_error L clk es = None \<Longrightarrow> length (incidents L clk es) = length es"
proof (induction es arbitrary: clk)
  case Nil
  show ?case by (simp add: incidents_Nil)
next
  case (Cons e es)
  show ?case
  proof (cases "parse_incident L clk e")
    case (Inl x)
    with Cons.prems show ?thesis by (simp add: parse_all_raises(2) [OF Inl])
  next
    case (Inr q)
    obtain i clk' where p: "parse_incident L clk e = Inr (i, clk')"
      using Inr by (cases q) simp
    from Cons.prems have "parse_error L clk' es = None"
      by (simp add: parse_all_parses(2) [OF p])
    from Cons.IH [OF this] show ?thesis
      by (simp add: parse_all_parses(1) [OF p])
  qed
qed

lemma ex_quiet_returns:
  assumes "callback m = ex_quiet" and "parse_error L clk es = None"
  shows "ended (process_entries L clk m es initial) = Returned"
  using assms by (simp add: process_entries_returns ex_quiet_def)

lemma ex_known_quiet: "callback ex_known = ex_quiet" "callback ex_monitor = ex_quiet"
  by (simp_all add: ex_known_def ex_monitor_def init_def)

subsection \<open>Change detection\<close>

text \<open>
  C1, as the code has it. The callback of \<open>ex_fragile\<close> raises for the incident
  \<^verbatim>\<open>inc1\<close>. In a cycle that is not the initial one, with an empty snapshot and the
  incidents \<^verbatim>\<open>inc1\<close> and \<^verbatim>\<open>inc2\<close>, the identity of \<^verbatim>\<open>inc2\<close> is absent from the snapshot
  and the callback is not called for it: the exception ends the loop at \<^verbatim>\<open>inc1\<close>.
\<close>

theorem noninitial_cycle_aborted_by_callback:
  "seen_incidents ex_fragile ''inc2'' = None \<and>
   incidents ex_lib ex_clock (snd (ex_feed ''two'')) =
     [ex_incident ''inc1'' 1762178400000000, ex_incident ''inc2'' 1762182000000000] \<and>
   calls (process_entries ex_lib ex_clock ex_fragile (snd (ex_feed ''two'')) False) =
     [ex_incident ''inc1'' 1762178400000000] \<and>
   ex_incident ''inc2'' 1762182000000000 \<notin>
     set (calls (process_entries ex_lib ex_clock ex_fragile (snd (ex_feed ''two'')) False))"
  by (simp add: ex_incidents) (simp add: process_entries_def ex_defs parse_defs)

text \<open>
  C1, amended. In a cycle that is not the initial one and that no exception leaves, the
  callback is called for an incident of the current sequence if and only if the
  snapshot of the cycle before does not hold its identity, or holds it with an
  updated-at value that differs from the one just computed, whichever of the two is the
  later; the calls are made in the order of the feed.
\<close>

theorem noninitial_cycle_selects_new_and_changed:
  assumes "r = process_entries L clk m entries False"
    and "ended r = Returned"
  shows "calls r =
     filter (\<lambda>i. seen_incidents m (incident_id i) = None \<or>
                 (\<exists>prev. seen_incidents m (incident_id i) = Some prev \<and>
                         prev \<noteq> isoformat L (updated_at i)))
       (incidents L clk entries) \<and>
     length (incidents L clk entries) = length entries"
proof -
  have sel: "(\<lambda>i. False \<or> seen_incidents m (incident_id i) \<noteq> Some (isoformat L (updated_at i))) =
     (\<lambda>i. seen_incidents m (incident_id i) = None \<or>
          (\<exists>prev. seen_incidents m (incident_id i) = Some prev \<and>
                  prev \<noteq> isoformat L (updated_at i)))"
    by (rule ext) (metis option.exhaust option.inject option.distinct(1))
  have ret: "ended (process_entries L clk m entries False) = Returned"
    using assms by simp
  have "calls r =
     filter (\<lambda>i. False \<or> seen_incidents m (incident_id i) \<noteq> Some (isoformat L (updated_at i)))
       (incidents L clk entries)"
    using assms(1) process_entries_Returned(2) [OF ret] by simp
  then have "calls r =
     filter (\<lambda>i. seen_incidents m (incident_id i) = None \<or>
                 (\<exists>prev. seen_incidents m (incident_id i) = Some prev \<and>
                         prev \<noteq> isoformat L (updated_at i)))
       (incidents L clk entries)"
    by (simp only: sel)
  moreover have "length (incidents L clk entries) = length entries"
    by (rule incidents_length [OF process_entries_Returned(1) [OF ret]])
  ultimately show ?thesis by simp
qed

theorem noninitial_cycle_selects_new_and_changed_witness:
  "ended (process_entries ex_lib ex_clock ex_known ex_entries False) = Returned \<and>
   incidents ex_lib ex_clock ex_entries =
     [ex_incident ''inc1'' 1762178400000000, ex_incident ''inc2'' 1762182000000000,
      ex_incident ''inc3'' 1762178400000000] \<and>
   seen_incidents ex_known ''inc1'' = Some ''2025-11-03T15:00:00+00:00'' \<and>
   seen_incidents ex_known ''inc2'' = None \<and>
   seen_incidents ex_known ''inc3'' = Some ''2025-11-03T14:00:00+00:00'' \<and>
   calls (process_entries ex_lib ex_clock ex_known ex_entries False) =
     [ex_incident ''inc1'' 1762178400000000, ex_incident ''inc2'' 1762182000000000]"
proof -
  have ret: "ended (process_entries ex_lib ex_clock ex_known ex_entries False) = Returned"
    by (rule ex_quiet_returns [OF ex_known_quiet(1) ex_incidents(4)])
  show ?thesis
    using noninitial_cycle_selects_new_and_changed [OF refl ret] ret
    by (simp add: ex_incidents) (simp add: ex_defs)
qed

text \<open>
  C2, as the code has it. In an initial cycle with the incidents \<^verbatim>\<open>inc1\<close>, \<^verbatim>\<open>inc2\<close> and
  \<^verbatim>\<open>inc3\<close> the callback of \<open>ex_fragile\<close> raises for \<^verbatim>\<open>inc1\<close>, and the other two are not
  notified.
\<close>

theorem initial_cycle_aborted_by_callback:
  "incidents ex_lib ex_clock ex_entries =
     [ex_incident ''inc1'' 1762178400000000, ex_incident ''inc2'' 1762182000000000,
      ex_incident ''inc3'' 1762178400000000] \<and>
   calls (process_entries ex_lib ex_clock ex_fragile ex_entries True) =
     [ex_incident ''inc1'' 1762178400000000] \<and>
   ended (process_entries ex_lib ex_clock ex_fragile ex_entries True) =
     Raised (CallbackError ''boom'')"
  by (simp add: ex_incidents) (simp add: process_entries_def ex_defs parse_defs)

text \<open>
  C2, amended. In an initial cycle that no exception leaves, the callback is called once
  for every incident of the current sequence, in the order of the feed, whatever the
  snapshot of the monitor holds (an identity that occurs twice is notified at each
  occurrence); there is one incident for every entry.
\<close>

theorem initial_cycle_notifies_all:
  assumes "r = process_entries L clk m entries True"
    and "ended r = Returned"
  shows "calls r = incidents L clk entries \<and>
         length (incidents L clk entries) = length entries"
proof -
  have ret: "ended (process_entries L clk m entries True) = Returned"
    using assms by simp
  have "calls r = incidents L clk entries"
    using assms(1) process_entries_Returned(2) [OF ret] by simp
  moreover have "length (incidents L clk entries) = length entries"
    by (rule incidents_length [OF process_entries_Returned(1) [OF ret]])
  ultimately show ?thesis by simp
qed

theorem initial_cycle_notifies_all_witness:
  "ended (process_entries ex_lib ex_clock ex_known ex_entries True) = Returned \<and>
   seen_incidents ex_known ''inc3'' = Some ''2025-11-03T14:00:00+00:00'' \<and>
   calls (process_entries ex_lib ex_clock ex_known ex_entries True) =
     [ex_incident ''inc1'' 1762178400000000, ex_incident ''inc2'' 1762182000000000,
      ex_incident ''inc3'' 1762178400000000]"
proof -
  have ret: "ended (process_entries ex_lib ex_clock ex_known ex_entries True) = Returned"
    by (rule ex_quiet_returns [OF ex_known_quiet(1) ex_incidents(4)])
  show ?thesis
    using initial_cycle_notifies_all [OF refl ret] ret
    by (simp add: ex_incidents) (simp add: ex_defs)
qed

text \<open>
  C3, as the code has it. The snapshot of \<open>ex_fragile_known\<close> holds \<^verbatim>\<open>inc3\<close>. After a
  cycle with the incidents \<^verbatim>\<open>inc1\<close> and \<^verbatim>\<open>inc2\<close>, in which the callback raises for
  \<^verbatim>\<open>inc1\<close>, the snapshot still holds \<^verbatim>\<open>inc3\<close>, which the current sequence lacks, and
  holds neither \<^verbatim>\<open>inc1\<close> nor \<^verbatim>\<open>inc2\<close>.
\<close>

theorem snapshot_kept_when_callback_raises:
  "incidents ex_lib ex_clock (snd (ex_feed ''two'')) =
     [ex_incident ''inc1'' 1762178400000000, ex_incident ''inc2'' 1762182000000000] \<and>
   seen_incidents
     (monitor (process_entries ex_lib ex_clock ex_fragile_known (snd (ex_feed ''two'')) False))
     ''inc3'' = Some ''2025-11-03T14:00:00+00:00'' \<and>
   seen_incidents
     (monitor (process_entries ex_lib ex_clock ex_fragile_known (snd (ex_feed ''two'')) False))
     ''inc1'' = None \<and>
   seen_incidents
     (monitor (process_entries ex_lib ex_clock ex_fragile_known (snd (ex_feed ''two'')) False))
     ''inc2'' = None"
  by (simp add: ex_incidents) (simp add: process_entries_def ex_defs parse_defs)

text \<open>
  C3, amended. After a cycle that no exception leaves, initial or not, the snapshot of
  the monitor holds exactly the identities of the current sequence: an identity that
  does not occur there is not in it, also when the snapshot before held it, and an
  identity that occurs there is mapped to the updated-at value of its last occurrence.
  The callback is called for incidents of the current sequence only, and there is one
  incident for every entry.
\<close>

theorem snapshot_rebuilt_from_current:
  assumes "r = process_entries L clk m entries initial"
    and "ended r = Returned"
  shows "(\<forall>k. k \<notin> incident_id ` set (incidents L clk entries) \<longrightarrow>
              seen_incidents (monitor r) k = None) \<and>
         (\<forall>pre i post. incidents L clk entries = pre @ i # post \<and>
              incident_id i \<notin> incident_id ` set post \<longrightarrow>
              seen_incidents (monitor r) (incident_id i) = Some (isoformat L (updated_at i))) \<and>
         set (calls r) \<subseteq> set (incidents L clk entries) \<and>
         length (incidents L clk entries) = length entries"
proof -
  have ret: "ended (process_entries L clk m entries initial) = Returned"
    using assms by simp
  have r: "r = \<lparr> ended = Returned,
             monitor = m\<lparr>seen_incidents := snapshot L (incidents L clk entries)\<rparr>,
             calls = filter (\<lambda>i. initial \<or>
                       seen_incidents m (incident_id i) \<noteq> Some (isoformat L (updated_at i)))
                     (incidents L clk entries),
             clock_after = clock_end L clk entries \<rparr>"
    using assms(1) process_entries_Returned(2) [OF ret] by simp
  have seen: "seen_incidents (monitor r) = snapshot L (incidents L clk entries)"
    by (simp add: r)
  have a: "\<forall>k. k \<notin> incident_id ` set (incidents L clk entries) \<longrightarrow>
              seen_incidents (monitor r) k = None"
    unfolding seen by (blast intro: snapshot_absent)
  have b: "\<forall>pre i post. incidents L clk entries = pre @ i # post \<and>
              incident_id i \<notin> incident_id ` set post \<longrightarrow>
              seen_incidents (monitor r) (incident_id i) = Some (isoformat L (updated_at i))"
    unfolding seen by (metis snapshot_last)
  have c: "set (calls r) \<subseteq> set (incidents L clk entries)"
    by (simp add: r)
  have d: "length (incidents L clk entries) = length entries"
    by (rule incidents_length [OF process_entries_Returned(1) [OF ret]])
  from a b c d show ?thesis by blast
qed

theorem snapshot_rebuilt_from_current_witness:
  "ended (process_entries ex_lib ex_clock ex_known ex_twice False) = Returned \<and>
   incidents ex_lib ex_clock ex_twice =
     [ex_incident ''inc1'' 1762178400000000, ex_incident ''inc1'' 1762182000000000] \<and>
   seen_incidents ex_known ''inc3'' = Some ''2025-11-03T14:00:00+00:00'' \<and>
   seen_incidents (monitor (process_entries ex_lib ex_clock ex_known ex_twice False)) ''inc3''
     = None \<and>
   seen_incidents (monitor (process_entries ex_lib ex_clock ex_known ex_twice False)) ''inc1''
     = Some ''2025-11-03T15:00:00+00:00''"
proof -
  have inc: "incidents ex_lib ex_clock ex_twice =
     [ex_incident ''inc1'' 1762178400000000] @ ex_incident ''inc1'' 1762182000000000 # []"
    by (simp add: ex_incidents)
  have ret: "ended (process_entries ex_lib ex_clock ex_known ex_twice False) = Returned"
    by (rule ex_quiet_returns [OF ex_known_quiet(1) ex_incidents(5)])
  note inst = snapshot_rebuilt_from_current [OF refl ret]
  have absent: "''inc3'' \<notin> incident_id ` set (incidents ex_lib ex_clock ex_twice)"
    by (simp add: inc ex_incident_def)
  have last: "incident_id (ex_incident ''inc1'' 1762182000000000) \<notin> incident_id ` set []"
    by simp
  have a: "seen_incidents (monitor (process_entries ex_lib ex_clock ex_known ex_twice False))
      ''inc3'' = None"
    using inst absent by blast
  have "seen_incidents (monitor (process_entries ex_lib ex_clock ex_known ex_twice False))
      (incident_id (ex_incident ''inc1'' 1762182000000000)) =
        Some (isoformat ex_lib (updated_at (ex_incident ''inc1'' 1762182000000000)))"
    using inst inc last by blast
  then have b: "seen_incidents (monitor (process_entries ex_lib ex_clock ex_known ex_twice False))
      ''inc1'' = Some ''2025-11-03T15:00:00+00:00''"
    by (simp add: ex_incident_def ex_lib_def ex_isoformat_def)
  show ?thesis
    using inc a b ret by (simp add: ex_known_def ex_monitor_def init_def)
qed




subsection \<open>Normalization\<close>

lemma parse_incident_clock:
  assumes "parse_incident L clk e = Inr (i, clk')"
  shows "clk' = (if stamp e = None then (\<lambda>n. clk (Suc n)) else clk)"
  using assms
  by (auto simp: parse_incident_def parse_timestamp_def now_def split: sum.splits option.splits)

lemma parse_incident_time:
  assumes "parse_incident L clk e = Inr (i, clk')"
  shows "stamp e = None \<longrightarrow> updated_at i = clk 0"
    and "\<forall>ts. stamp e = Some ts \<longrightarrow>
           (\<exists>s. timegm L ts = Inr s \<and> fromtimestamp L s = Inr (updated_at i))"
  using assms
  by (auto simp: parse_incident_def parse_timestamp_def now_def split: sum.splits option.splits)

lemma parse_incident_but_time:
  "map_sum id (\<lambda>p. (fst p)\<lparr>updated_at := d\<rparr>) (parse_incident L clk e) =
   map_sum id (\<lambda>p. (fst p)\<lparr>updated_at := d\<rparr>) (parse_incident L clk' e)"
  by (simp add: parse_incident_def parse_timestamp_def now_def
      split: sum.splits option.splits prod.splits)

lemma parse_incident_timed:
  assumes "stamp e \<noteq> None"
  shows "parse_incident L clk e = map_sum id (\<lambda>p. (fst p, clk)) (parse_incident L clk' e)"
  using assms
  by (auto simp: parse_incident_def parse_timestamp_def split: sum.splits option.splits)

lemma parse_all_but_time:
  "map (\<lambda>i. i\<lparr>updated_at := d\<rparr>) (incidents L clk es) =
   map (\<lambda>i. i\<lparr>updated_at := d\<rparr>) (incidents L clk' es) \<and>
   parse_error L clk es = parse_error L clk' es"
proof (induction es arbitrary: clk clk')
  case Nil
  show ?case by (simp add: incidents_def parse_error_def)
next
  case (Cons e es)
  note eq = parse_incident_but_time [where L = L and e = e and d = d and clk = clk and clk' = clk']
  show ?case
  proof (cases "parse_incident L clk e")
    case (Inl x)
    with eq have other: "parse_incident L clk' e = Inl x"
      by (cases "parse_incident L clk' e") simp_all
    show ?thesis
      by (simp add: parse_all_raises [OF Inl] parse_all_raises [OF other])
  next
    case (Inr q)
    obtain i c where p: "parse_incident L clk e = Inr (i, c)"
      using Inr by (cases q) simp
    with eq obtain i' c' where p': "parse_incident L clk' e = Inr (i', c')"
      and same: "i\<lparr>updated_at := d\<rparr> = i'\<lparr>updated_at := d\<rparr>"
      by (cases "parse_incident L clk' e") auto
    show ?thesis
      using Cons.IH [of c c'] same
      by (simp add: parse_all_parses [OF p] parse_all_parses [OF p'])
  qed
qed

lemma parse_all_timed:
  assumes "\<forall>e \<in> set es. stamp e \<noteq> None"
  shows "incidents L clk es = incidents L clk' es"
  using assms
proof (induction es arbitrary: clk clk')
  case Nil
  show ?case by (simp add: incidents_def)
next
  case (Cons e es)
  then have e: "stamp e \<noteq> None" and es: "\<forall>e \<in> set es. stamp e \<noteq> None"
    by simp_all
  note eq = parse_incident_timed [OF e, of L clk clk']
  show ?case
  proof (cases "parse_incident L clk' e")
    case (Inl x)
    with eq have "parse_incident L clk e = Inl x" by simp
    then show ?thesis
      by (simp add: parse_all_raises(1) [OF Inl] parse_all_raises(1))
  next
    case (Inr q)
    obtain i c where p': "parse_incident L clk' e = Inr (i, c)"
      using Inr by (cases q) simp
    with eq have p: "parse_incident L clk e = Inr (i, clk)" by simp
    from parse_incident_clock [OF p'] e have "c = clk'" by simp
    with p' have p'': "parse_incident L clk' e = Inr (i, clk')" by simp
    show ?thesis
      using Cons.IH [OF es, of clk clk']
      by (simp add: parse_all_parses(1) [OF p] parse_all_parses(1) [OF p''])
  qed
qed

lemma readings_before_Suc:
  "readings_before (e # es) (Suc n) =
     (if stamp e = None then Suc (readings_before es n) else readings_before es n)"
  by (simp add: readings_before_def)

lemma parse_all_nth:
  assumes "n < length (incidents L clk es)"
  shows "n < length es \<and>
         (\<exists>c'. parse_incident L (\<lambda>k. clk (k + readings_before es n)) (es ! n) =
                 Inr (incidents L clk es ! n, c'))"
  using assms
proof (induction es arbitrary: clk n)
  case Nil
  then show ?case by (simp add: incidents_Nil)
next
  case (Cons e es)
  show ?case
  proof (cases "parse_incident L clk e")
    case (Inl x)
    with Cons.prems show ?thesis by (simp add: parse_all_raises(1) [OF Inl])
  next
    case (Inr q)
    obtain i c where p: "parse_incident L clk e = Inr (i, c)"
      using Inr by (cases q) simp
    note inc = parse_all_parses(1) [OF p, of es]
    show ?thesis
    proof (cases n)
      case 0
      then show ?thesis
        by (simp add: inc p readings_before_def)
    next
      case (Suc n')
      with Cons.prems have "n' < length (incidents L c es)"
        by (simp add: inc)
      from Cons.IH [OF this] obtain c' where
        len: "n' < length es" and
        nth: "parse_incident L (\<lambda>k. c (k + readings_before es n')) (es ! n') =
               Inr (incidents L c es ! n', c')"
        by blast
      have "(\<lambda>k. c (k + readings_before es n')) =
            (\<lambda>k. clk (k + readings_before (e # es) (Suc n')))"
        using parse_incident_clock [OF p] by (auto simp: readings_before_Suc)
      with nth len Suc show ?thesis
        by (auto simp: inc)
    qed
  qed
qed

text \<open>
  C6, as the code has it. An entry that carries neither an updated nor a published time
  gets the reading of the clock at the moment it is parsed as its updated-at value, so
  two runs on the same payload differ there.
\<close>

theorem normalize_not_deterministic:
  "normalize_feed ex_lib ex_feed ex_clock ''untimed'' \<noteq>
   normalize_feed ex_lib ex_feed ex_clock_later ''untimed''"
  by (simp add: normalize_feed_def incidents_def ex_defs parse_defs)

text \<open>
  C6, amended. With \<open>es\<close> the entries of the payload and \<open>incs\<close> the result of a run:
  \<^item> the order of the feed is kept: the incident at a position is what
    \<^verbatim>\<open>parse_incident\<close> makes of the entry at that position, and when no entry makes it
    raise there is one incident for every entry;
  \<^item> the updated-at value of an incident is the next reading of the clock
    (\<^verbatim>\<open>datetime.now\<close>) when its entry carries neither an updated nor a published time,
    and \<^verbatim>\<open>fromtimestamp(timegm(_))\<close> of the time the entry carries otherwise;
  \<^item> two runs on the same payload agree in length and order, in every field but the
    updated-at value, and in the exception that ends them, if one does; when every
    entry carries an updated or a published time they agree in the updated-at values
    too, whatever the clock shows.
\<close>

theorem normalize_deterministic_but_clock:
  assumes "es = snd (parse body)"
    and "incs = normalize_feed L parse clk body"
  shows "(\<forall>n < length incs. n < length es \<and>
            (\<exists>c'. parse_incident L (\<lambda>k. clk (k + readings_before es n)) (es ! n) =
                    Inr (incs ! n, c')) \<and>
            (stamp (es ! n) = None \<longrightarrow> updated_at (incs ! n) = clk (readings_before es n)) \<and>
            (\<forall>ts. stamp (es ! n) = Some ts \<longrightarrow>
               (\<exists>s. timegm L ts = Inr s \<and> fromtimestamp L s = Inr (updated_at (incs ! n))))) \<and>
         (parse_error L clk es = None \<longrightarrow> length incs = length es) \<and>
         map (\<lambda>i. i\<lparr>updated_at := d\<rparr>) incs =
           map (\<lambda>i. i\<lparr>updated_at := d\<rparr>) (normalize_feed L parse clk' body) \<and>
         parse_error L clk es = parse_error L clk' es \<and>
         ((\<forall>e \<in> set es. stamp e \<noteq> None) \<longrightarrow> incs = normalize_feed L parse clk' body)"
proof -
  have incs: "incs = incidents L clk es"
    using assms by (simp add: normalize_feed_def)
  have other: "normalize_feed L parse clk' body = incidents L clk' es"
    using assms by (simp add: normalize_feed_def)
  have pos: "\<forall>n < length incs. n < length es \<and>
            (\<exists>c'. parse_incident L (\<lambda>k. clk (k + readings_before es n)) (es ! n) =
                    Inr (incs ! n, c')) \<and>
            (stamp (es ! n) = None \<longrightarrow> updated_at (incs ! n) = clk (readings_before es n)) \<and>
            (\<forall>ts. stamp (es ! n) = Some ts \<longrightarrow>
               (\<exists>s. timegm L ts = Inr s \<and> fromtimestamp L s = Inr (updated_at (incs ! n))))"
  proof (intro allI impI)
    fix n assume "n < length incs"
    then have "n < length (incidents L clk es)" by (simp add: incs)
    from parse_all_nth [OF this] obtain c' where
      len: "n < length es" and
      nth: "parse_incident L (\<lambda>k. clk (k + readings_before es n)) (es ! n) = Inr (incs ! n, c')"
      by (auto simp: incs)
    from parse_incident_time [OF nth] len nth
    show "n < length es \<and>
            (\<exists>c'. parse_incident L (\<lambda>k. clk (k + readings_before es n)) (es ! n) =
                    Inr (incs ! n, c')) \<and>
            (stamp (es ! n) = None \<longrightarrow> updated_at (incs ! n) = clk (readings_before es n)) \<and>
            (\<forall>ts. stamp (es ! n) = Some ts \<longrightarrow>
               (\<exists>s. timegm L ts = Inr s \<and> fromtimestamp L s = Inr (updated_at (incs ! n))))"
      by auto
  qed
  have len: "parse_error L clk es = None \<longrightarrow> length incs = length es"
    by (simp add: incs incidents_length)
  have two: "map (\<lambda>i. i\<lparr>updated_at := d\<rparr>) incs =
           map (\<lambda>i. i\<lparr>updated_at := d\<rparr>) (normalize_feed L parse clk' body) \<and>
         parse_error L clk es = parse_error L clk' es"
    unfolding incs other by (rule parse_all_but_time)
  have timed: "(\<forall>e \<in> set es. stamp e \<noteq> None) \<longrightarrow> incs = normalize_feed L parse clk' body"
    unfolding incs other by (blast intro: parse_all_timed)
  from pos len two timed show ?thesis by blast
qed

theorem normalize_deterministic_but_clock_witness:
  "snd (ex_feed ''two'') = [ex_entry ''inc1'' (Some ex_t14), ex_entry ''inc2'' (Some ex_t15)] \<and>
   stamp (ex_entry ''inc1'' (Some ex_t14)) = Some ex_t14 \<and>
   stamp (ex_entry ''inc2'' (Some ex_t15)) = Some ex_t15 \<and>
   normalize_feed ex_lib ex_feed ex_clock ''two'' = normalize_feed ex_lib ex_feed ex_clock_later ''two'' \<and>
   normalize_feed ex_lib ex_feed ex_clock ''two'' =
     [ex_incident ''inc1'' 1762178400000000, ex_incident ''inc2'' 1762182000000000] \<and>
   snd (ex_feed ''untimed'') = [ex_entry ''inc1'' None] \<and>
   stamp (ex_entry ''inc1'' None) = None \<and>
   normalize_feed ex_lib ex_feed ex_clock ''untimed'' = [ex_incident ''inc1'' 1762182000500000] \<and>
   updated_at (normalize_feed ex_lib ex_feed ex_clock ''untimed'' ! 0) = ex_clock 0 \<and>
   map (\<lambda>i. i\<lparr>updated_at := 0\<rparr>) (normalize_feed ex_lib ex_feed ex_clock ''untimed'') =
   map (\<lambda>i. i\<lparr>updated_at := 0\<rparr>) (normalize_feed ex_lib ex_feed ex_clock_later ''untimed'')"
proof -
  have two: "snd (ex_feed ''two'') = [ex_entry ''inc1'' (Some ex_t14), ex_entry ''inc2'' (Some ex_t15)]"
    and untimed: "snd (ex_feed ''untimed'') = [ex_entry ''inc1'' None]"
    by (simp_all add: ex_feed_def)
  have stamps: "stamp (ex_entry ''inc1'' (Some ex_t14)) = Some ex_t14"
    "stamp (ex_entry ''inc2'' (Some ex_t15)) = Some ex_t15"
    "stamp (ex_entry ''inc1'' None) = None"
    by (simp_all add: stamp_def ex_entry_def)
  have timed: "\<forall>e \<in> set (snd (ex_feed ''two'')). stamp e \<noteq> None"
    by (simp add: two stamps)
  note t = normalize_deterministic_but_clock [OF refl refl,
      where parse = ex_feed and body = "''two''" and L = ex_lib and clk = ex_clock
        and clk' = ex_clock_later and d = 0]
  note u = normalize_deterministic_but_clock [OF refl refl,
      where parse = ex_feed and body = "''untimed''" and L = ex_lib and clk = ex_clock
        and clk' = ex_clock_later and d = 0]
  have same: "normalize_feed ex_lib ex_feed ex_clock ''two'' =
      normalize_feed ex_lib ex_feed ex_clock_later ''two''"
    using t timed by blast
  have val: "normalize_feed ex_lib ex_feed ex_clock ''two'' =
     [ex_incident ''inc1'' 1762178400000000, ex_incident ''inc2'' 1762182000000000]"
    by (simp add: normalize_feed_def ex_incidents)
  have uval: "normalize_feed ex_lib ex_feed ex_clock ''untimed'' = [ex_incident ''inc1'' 1762182000500000]"
    by (simp add: normalize_feed_def incidents_def ex_defs parse_defs)
  have "0 < length (normalize_feed ex_lib ex_feed ex_clock ''untimed'')"
    by (simp add: uval)
  with u have "stamp (snd (ex_feed ''untimed'') ! 0) = None \<longrightarrow>
      updated_at (normalize_feed ex_lib ex_feed ex_clock ''untimed'' ! 0) =
        ex_clock (readings_before (snd (ex_feed ''untimed'')) 0)"
    by blast
  then have reading: "updated_at (normalize_feed ex_lib ex_feed ex_clock ''untimed'' ! 0) = ex_clock 0"
    by (simp add: untimed stamps readings_before_def)
  have rest: "map (\<lambda>i. i\<lparr>updated_at := 0\<rparr>) (normalize_feed ex_lib ex_feed ex_clock ''untimed'') =
      map (\<lambda>i. i\<lparr>updated_at := 0\<rparr>) (normalize_feed ex_lib ex_feed ex_clock_later ''untimed'')"
    using u by blast
  show ?thesis
    using two untimed stamps same val uval reading rest by simp
qed

subsection \<open>One cycle and the loop\<close>

lemma request_headers_running:
  "request_headers (m\<lparr>running := b\<rparr>) = request_headers m"
  by (simp add: request_headers_def)

lemma check_feed_untouched:
  assumes "srv (request_headers m) = GetFailed \<or>
           (\<exists>code headers b. srv (request_headers m) = Response code headers b \<and> code \<noteq> 200)"
  shows "check_feed L parse clk m srv initial =
           \<lparr> ended = Returned, monitor = m, calls = [], clock_after = clk \<rparr>"
  using assms by (auto simp: check_feed_def)


lemma check_feed_processes:
  assumes "srv (request_headers m) = Response 200 headers (BodyText body)"
    and "parse body = (bozo, entries)"
    and "\<not> (bozo \<and> entries = [])"
  shows "check_feed L parse clk m srv initial =
           process_entries L clk
             (m\<lparr>etag := headers ''ETag'', last_modified := headers ''Last-Modified''\<rparr>)
             entries initial"
  using assms by (auto simp: check_feed_def Let_def)

lemma check_feed_malformed_noop:
  assumes "srv (request_headers m) = Response 200 headers (BodyText body)"
    and "parse body = (True, [])"
  shows "check_feed L parse clk m srv initial =
      \<lparr> ended = Returned,
        monitor = m\<lparr>etag := headers ''ETag'', last_modified := headers ''Last-Modified''\<rparr>,
        calls = [], clock_after = clk \<rparr>"
  using assms by (simp add: check_feed_def Let_def)









text \<open>
  C8, at a response with status 200 whose body is not valid in its charset.
  \<^verbatim>\<open>resp.text\<close> raises \<^verbatim>\<open>UnicodeDecodeError\<close>, which the handler of \<^verbatim>\<open>_check_feed\<close> does
  not catch: the exception leaves \<^verbatim>\<open>_check_feed\<close> and \<^verbatim>\<open>start\<close>, and the cycle that
  would follow, whose response carries the tag \<^verbatim>\<open>v3\<close>, does not run.
\<close>

theorem undecodable_body_ends_monitor:
  "ended (check_feed ex_lib ex_feed ex_clock ex_cached ex_undecodable False) =
     Raised (Error (LibraryError ''UnicodeDecodeError'')) \<and>
   ended (start ex_lib ex_feed ex_clock ex_cached ex_undecodable
            [ex_server 200 (Some ''v3'') (BodyText ''one'')]) =
     Raised (Error (LibraryError ''UnicodeDecodeError'')) \<and>
   calls (start ex_lib ex_feed ex_clock ex_cached ex_undecodable
            [ex_server 200 (Some ''v3'') (BodyText ''one'')]) = [] \<and>
   etag (monitor (start ex_lib ex_feed ex_clock ex_cached ex_undecodable
            [ex_server 200 (Some ''v3'') (BodyText ''one'')])) = Some ''v2'' \<and>
   poll_loop ex_lib ex_feed ex_clock ex_cached
     [ex_undecodable, ex_server 200 (Some ''v3'') (BodyText ''one'')] [] =
   check_feed ex_lib ex_feed ex_clock ex_cached ex_undecodable False"
  by (simp add: start_def check_feed_def ex_undecodable_def ex_server_def ex_cached_def Let_def)

text \<open>
  C9. A response with status 200 whose body was read replaces both validators by what
  its headers \<^verbatim>\<open>ETag\<close> and \<^verbatim>\<open>Last-Modified\<close> hold, whatever the body parses to and
  whatever the callback does; a header the response lacks leaves the validator absent.
\<close>

theorem success_replaces_validators:
  assumes "srv (request_headers m) = Response 200 headers (BodyText body)"
    and "r = check_feed L parse clk m srv initial"
  shows "etag (monitor r) = headers ''ETag'' \<and>
         last_modified (monitor r) = headers ''Last-Modified''"
  using assms
  by (simp add: check_feed_def process_entries_keeps Let_def split: prod.splits)

theorem success_replaces_validators_witness:
  "ex_server 200 (Some ''v2'') (BodyText ''one'') (request_headers ex_cached) =
     Response 200 [''ETag'' \<mapsto> ''v2''] (BodyText ''one'') \<and>
   etag ex_cached = Some ''v1'' \<and>
   last_modified ex_cached = Some ''Mon, 03 Nov 2025 14:00:00 GMT'' \<and>
   etag (monitor (check_feed ex_lib ex_feed ex_clock ex_cached
           (ex_server 200 (Some ''v2'') (BodyText ''one'')) False)) = Some ''v2'' \<and>
   last_modified (monitor (check_feed ex_lib ex_feed ex_clock ex_cached
           (ex_server 200 (Some ''v2'') (BodyText ''one'')) False)) = None"
proof -
  have srv: "ex_server 200 (Some ''v2'') (BodyText ''one'') (request_headers ex_cached) =
     Response 200 [''ETag'' \<mapsto> ''v2''] (BodyText ''one'')"
    by (simp add: ex_server_def)
  from success_replaces_validators [where srv = "ex_server 200 (Some ''v2'') (BodyText ''one'')"
      and m = ex_cached and L = ex_lib and parse = ex_feed and clk = ex_clock and initial = False,
      OF srv refl]
  show ?thesis
    using srv by (simp add: ex_cached_def)
qed

text \<open>
  C4, at a response with status 200 whose body cannot be read (the connection breaks, or
  the timeout of 30 seconds passes, while \<^verbatim>\<open>resp.text\<close> runs). The handler of
  \<^verbatim>\<open>_check_feed\<close> logs a network error and returns; the callback is not called and the
  snapshot is kept, but both validators are already those of the response.
\<close>

theorem body_read_failure_replaces_validators:
  "etag ex_cached = Some ''v1'' \<and>
   last_modified ex_cached = Some ''Mon, 03 Nov 2025 14:00:00 GMT'' \<and>
   ended (check_feed ex_lib ex_feed ex_clock ex_cached
            (ex_server 200 (Some ''v2'') BodyFailed) False) = Returned \<and>
   calls (check_feed ex_lib ex_feed ex_clock ex_cached
            (ex_server 200 (Some ''v2'') BodyFailed) False) = [] \<and>
   etag (monitor (check_feed ex_lib ex_feed ex_clock ex_cached
            (ex_server 200 (Some ''v2'') BodyFailed) False)) = Some ''v2'' \<and>
   last_modified (monitor (check_feed ex_lib ex_feed ex_clock ex_cached
            (ex_server 200 (Some ''v2'') BodyFailed) False)) = None"
  by (simp add: check_feed_def ex_server_def ex_cached_def Let_def)

text \<open>
  C5, as the code has it. The callback of \<open>ex_fragile\<close> raises for the incident
  \<^verbatim>\<open>inc1\<close>. In a first cycle with the incidents \<^verbatim>\<open>inc1\<close> and \<^verbatim>\<open>inc2\<close> the call for
  \<^verbatim>\<open>inc1\<close> is the only one, the snapshot stays empty, and \<^verbatim>\<open>start\<close> ends with the
  exception without running the second cycle, whose response carries another tag.
\<close>

theorem callback_error_not_isolated:
  "ended (process_entries ex_lib ex_clock ex_fragile (snd (ex_feed ''two'')) True) =
     Raised (CallbackError ''boom'') \<and>
   calls (process_entries ex_lib ex_clock ex_fragile (snd (ex_feed ''two'')) True) =
     [ex_incident ''inc1'' 1762178400000000] \<and>
   seen_incidents (monitor (process_entries ex_lib ex_clock ex_fragile (snd (ex_feed ''two'')) True))
     ''inc1'' = None \<and>
   seen_incidents (monitor (process_entries ex_lib ex_clock ex_fragile (snd (ex_feed ''two'')) True))
     ''inc2'' = None \<and>
   ended (start ex_lib ex_feed ex_clock ex_fragile (ex_server 200 (Some ''v1'') (BodyText ''two''))
            [ex_server 200 (Some ''v2'') (BodyText ''empty'')]) = Raised (CallbackError ''boom'') \<and>
   calls (start ex_lib ex_feed ex_clock ex_fragile (ex_server 200 (Some ''v1'') (BodyText ''two''))
            [ex_server 200 (Some ''v2'') (BodyText ''empty'')]) =
     [ex_incident ''inc1'' 1762178400000000] \<and>
   etag (monitor (start ex_lib ex_feed ex_clock ex_fragile
            (ex_server 200 (Some ''v1'') (BodyText ''two''))
            [ex_server 200 (Some ''v2'') (BodyText ''empty'')])) = Some ''v1''"
  by (simp add: start_def check_feed_def process_entries_def Let_def ex_defs parse_defs)

text \<open>
  C5, amended. An exception that the callback raises for a selected incident is not
  caught. The incidents selected before it have been notified; no later incident of the
  cycle is; the snapshot is not replaced; and the exception leaves \<^verbatim>\<open>_check_feed\<close> and
  the loop of \<^verbatim>\<open>start\<close>, which runs no further cycle.
\<close>

theorem callback_error_ends_cycle_and_loop:
  fixes m :: "('dt, 'x) StatusPageMonitor"
  assumes "filter (\<lambda>i. initial \<or>
                     seen_incidents m (incident_id i) \<noteq> Some (isoformat L (updated_at i)))
             (incidents L clk entries) = pre @ i # post"
    and "\<forall>p \<in> set pre. callback m (name m) p = None"
    and "callback m (name m) i = Some x"
    and "srv (request_headers m) = Response 200 headers (BodyText body)"
    and "parse body = (bozo, entries)"
  shows "ended (process_entries L clk m entries initial) = Raised (CallbackError x) \<and>
         calls (process_entries L clk m entries initial) = pre @ [i] \<and>
         monitor (process_entries L clk m entries initial) = m \<and>
         ended (check_feed L parse clk m srv initial) = Raised (CallbackError x) \<and>
         calls (check_feed L parse clk m srv initial) = pre @ [i] \<and>
         seen_incidents (monitor (check_feed L parse clk m srv initial)) = seen_incidents m \<and>
         (\<not> initial \<longrightarrow>
            ended (poll_loop L parse clk m (srv # rest) cs) = Raised (CallbackError x) \<and>
            calls (poll_loop L parse clk m (srv # rest) cs) = cs @ pre @ [i]) \<and>
         (initial \<longrightarrow>
            ended (start L parse clk m srv rest) = Raised (CallbackError x) \<and>
            calls (start L parse clk m srv rest) = pre @ [i])"
proof -
  let ?P = "\<lambda>m i. initial \<or> seen_incidents m (incident_id i) \<noteq> Some (isoformat L (updated_at i))"
  have raises: "\<exists>clk'. process_entries L clk m' entries initial =
      \<lparr> ended = Raised (CallbackError x), monitor = m', calls = pre @ [i], clock_after = clk' \<rparr>"
    if "seen_incidents m' = seen_incidents m" "callback m' = callback m" "name m' = name m"
    for m' :: "('dt, 'x) StatusPageMonitor"
  proof -
    have "filter (?P m') (incidents L clk entries) = pre @ i # post"
      using assms(1) that(1) by simp
    moreover have "\<forall>p \<in> set pre. callback m' (name m') p = None"
      using assms(2) that by simp
    moreover have "callback m' (name m') i = Some x"
      using assms(3) that by simp
    ultimately show ?thesis by (rule process_entries_raises)
  qed
  have nonempty: "entries \<noteq> []"
    using assms(1) by (auto simp: incidents_Nil)
  have feed: "check_feed L parse clk m' srv initial =
      process_entries L clk
        (m'\<lparr>etag := headers ''ETag'', last_modified := headers ''Last-Modified''\<rparr>) entries initial"
    if "request_headers m' = request_headers m" for m' :: "('dt, 'x) StatusPageMonitor"
    using assms(4,5) nonempty that by (intro check_feed_processes) simp_all
  from raises [of m] obtain c1 where
    a: "process_entries L clk m entries initial =
      \<lparr> ended = Raised (CallbackError x), monitor = m, calls = pre @ [i], clock_after = c1 \<rparr>"
    by auto
  from raises [of "m\<lparr>etag := headers ''ETag'', last_modified := headers ''Last-Modified''\<rparr>"]
  obtain c2 where
    b: "check_feed L parse clk m srv initial =
      \<lparr> ended = Raised (CallbackError x),
        monitor = m\<lparr>etag := headers ''ETag'', last_modified := headers ''Last-Modified''\<rparr>,
        calls = pre @ [i], clock_after = c2 \<rparr>"
    unfolding feed [of m, OF refl] by auto
  from raises [of "m\<lparr>running := True, etag := headers ''ETag'',
      last_modified := headers ''Last-Modified''\<rparr>"]
  obtain c3 where
    c: "check_feed L parse clk (m\<lparr>running := True\<rparr>) srv initial =
      \<lparr> ended = Raised (CallbackError x),
        monitor = m\<lparr>running := True, etag := headers ''ETag'',
          last_modified := headers ''Last-Modified''\<rparr>,
        calls = pre @ [i], clock_after = c3 \<rparr>"
    unfolding feed [of "m\<lparr>running := True\<rparr>", OF request_headers_running] by auto
  have loop: "\<not> initial \<longrightarrow>
      ended (poll_loop L parse clk m (srv # rest) cs) = Raised (CallbackError x) \<and>
      calls (poll_loop L parse clk m (srv # rest) cs) = cs @ pre @ [i]"
    using b by (cases initial) simp_all
  have first: "initial \<longrightarrow>
      ended (start L parse clk m srv rest) = Raised (CallbackError x) \<and>
      calls (start L parse clk m srv rest) = pre @ [i]"
    using c by (cases initial) (simp_all add: start_def)
  from a b loop first show ?thesis by simp
qed

theorem callback_error_ends_cycle_and_loop_witness:
  "incidents ex_lib ex_clock (snd (ex_feed ''two'')) =
     [] @ ex_incident ''inc1'' 1762178400000000 # [ex_incident ''inc2'' 1762182000000000] \<and>
   callback ex_fragile (name ex_fragile) (ex_incident ''inc1'' 1762178400000000) = Some ''boom'' \<and>
   ended (start ex_lib ex_feed ex_clock ex_fragile (ex_server 200 (Some ''v1'') (BodyText ''two''))
            [ex_server 200 (Some ''v2'') (BodyText ''empty'')]) = Raised (CallbackError ''boom'') \<and>
   calls (start ex_lib ex_feed ex_clock ex_fragile (ex_server 200 (Some ''v1'') (BodyText ''two''))
            [ex_server 200 (Some ''v2'') (BodyText ''empty'')]) =
     [ex_incident ''inc1'' 1762178400000000]"
proof -
  have inc: "incidents ex_lib ex_clock (snd (ex_feed ''two'')) =
     [] @ ex_incident ''inc1'' 1762178400000000 # [ex_incident ''inc2'' 1762182000000000]"
    by (simp add: ex_incidents)
  have sel: "filter (\<lambda>i. True \<or> seen_incidents ex_fragile (incident_id i) \<noteq>
                 Some (isoformat ex_lib (updated_at i)))
       (incidents ex_lib ex_clock (snd (ex_feed ''two''))) =
     [] @ ex_incident ''inc1'' 1762178400000000 # [ex_incident ''inc2'' 1762182000000000]"
    by (simp add: inc)
  have pre: "\<forall>p \<in> set []. callback ex_fragile (name ex_fragile) p = None"
    by simp
  have boom: "callback ex_fragile (name ex_fragile) (ex_incident ''inc1'' 1762178400000000) =
      Some ''boom''"
    by (simp add: ex_fragile_def init_def ex_raising_def ex_incident_def)
  have srv: "ex_server 200 (Some ''v1'') (BodyText ''two'') (request_headers ex_fragile) =
      Response 200 [''ETag'' \<mapsto> ''v1''] (BodyText ''two'')"
    by (simp add: ex_server_def)
  have feed: "ex_feed ''two'' = (False, snd (ex_feed ''two''))"
    by (simp add: ex_feed_def)
  from callback_error_ends_cycle_and_loop [where srv = "ex_server 200 (Some ''v1'') (BodyText ''two'')"
      and m = ex_fragile and rest = "[ex_server 200 (Some ''v2'') (BodyText ''empty'')]"
      and initial = True and L = ex_lib and clk = ex_clock and parse = ex_feed
      and entries = "snd (ex_feed ''two'')" and pre = "[]"
      and i = "ex_incident ''inc1'' 1762178400000000"
      and post = "[ex_incident ''inc2'' 1762182000000000]" and x = "''boom''"
      and body = "''two''" and bozo = False and headers = "[''ETag'' \<mapsto> ''v1'']",
      OF sel pre boom srv feed]
  show ?thesis
    using inc boom by simp
qed




end
